theory Spec2Isabelle
  imports Complex_Main "HOL-Library.Sublist" "HOL-Library.Multiset"
begin

section \<open>The NSE data backend (src/nse_backend.py)\<close>

text \<open>
  The backend is a Flask application over one process-wide dictionary \<open>cache\<close>, the
  clock \<open>time.time()\<close> and the quote provider \<open>yfinance\<close>. The embedding makes the
  three explicit: the dictionary is a map that every operation receives and returns, the
  clock and the provider are functions of a logical step counter, and every exception of
  the source is a value.

  Numbers that are floats in the source (prices, percentages, seconds) are rationals
  here: arithmetic is exact, there is no NaN and no infinity. Strings are byte strings.
\<close>

subsection \<open>The cache\<close>

type_synonym time = rat

definition CACHE_TTL :: time where
  "CACHE_TTL = 60"

text \<open>\<open>cache[key] = (data, timestamp)\<close>: a dictionary from keys to pairs.\<close>

type_synonym 'v cache = "string \<rightharpoonup> ('v \<times> time)"

text \<open>
  \<open>get_cached(key)\<close>; \<open>now\<close> is the value \<open>time.time()\<close> has when the entry is
  examined. The lock makes the lookup one atomic step. Nothing is written.
\<close>

definition get_cached :: "'v cache \<Rightarrow> time \<Rightarrow> string \<Rightarrow> 'v option" where
  "get_cached cache now key =
     (case cache key of
        None \<Rightarrow> None
      | Some (data, timestamp) \<Rightarrow>
          if now - timestamp < CACHE_TTL then Some data else None)"

text \<open>\<open>set_cached(key, data)\<close>; \<open>now\<close> is the value of \<open>time.time()\<close> at the store.\<close>

definition set_cached :: "'v cache \<Rightarrow> time \<Rightarrow> string \<Rightarrow> 'v \<Rightarrow> 'v cache" where
  "set_cached cache now key data = cache(key \<mapsto> (data, now))"

text \<open>A run of stores, each \<open>(key, data, now)\<close>, applied from left to right.\<close>

definition set_cached_all :: "'v cache \<Rightarrow> (string \<times> 'v \<times> time) list \<Rightarrow> 'v cache" where
  "set_cached_all cache puts = foldl (\<lambda>c (k, d, t). set_cached c t k d) cache puts"

subsection \<open>Python values used by the quote assembly\<close>

datatype py_error = KeyError | IndexError | ZeroDivisionError

definition bind_err :: "py_error + 'a \<Rightarrow> ('a \<Rightarrow> py_error + 'b) \<Rightarrow> py_error + 'b" where
  "bind_err m f = (case m of Inl err \<Rightarrow> Inl err | Inr x \<Rightarrow> f x)"

text \<open>\<open>a / b\<close> on Python floats raises on a zero divisor.\<close>

definition py_div :: "rat \<Rightarrow> rat \<Rightarrow> py_error + rat" where
  "py_div a b = (if b = 0 then Inl ZeroDivisionError else Inr (a / b))"

text \<open>\<open>series.iloc[-1]\<close>: the last element, IndexError on an empty series.\<close>

definition iloc_last :: "'a list \<Rightarrow> py_error + 'a" where
  "iloc_last xs = (if xs = [] then Inl IndexError else Inr (last xs))"

text \<open>
  \<open>round(x, 2)\<close>: to the nearest multiple of 1/100, a tie going to the even multiple.
\<close>

definition round_half_even :: "rat \<Rightarrow> int" where
  "round_half_even x =
     (let f = \<lfloor>x\<rfloor>; d = x - of_int f in
      if d < 1 / 2 then f else if 1 / 2 < d then f + 1 else if even f then f else f + 1)"

definition round2 :: "rat \<Rightarrow> rat" where
  "round2 x = of_int (round_half_even (x * 100)) / 100"

text \<open>\<open>int(x)\<close> truncates towards zero.\<close>

definition py_int :: "rat \<Rightarrow> int" where
  "py_int x = (if 0 \<le> x then \<lfloor>x\<rfloor> else \<lceil>x\<rceil>)"


subsection \<open>Quotes and the provider\<close>

text \<open>The dictionary \<open>result\<close> that \<open>get_stock_data\<close> assembles.\<close>

record quote =
  symbol :: string
  name :: string
  price :: rat
  change :: rat
  changePercent :: rat
  open' :: "rat option"
  high :: "rat option"
  low :: "rat option"
  volume :: int
  marketCap :: int
  sector :: string
  industry :: string

text \<open>
  Modelled from the spec: the types of what the provider \<open>yfinance\<close> returns, which is
  a library outside the repository. The specification gives the collaborator as
  \<open>fetchQuote(symbol) -> {price, previousClose, open, high, low, volume, name, sector,
  industry} or EMPTY\<close>. Accordingly \<open>ticker.info\<close> is a dictionary in which each of the
  keys the source reads is either missing (\<open>None\<close> below) or holds a value of its type,
  and \<open>ticker.history(period='1d')\<close> is a table of rows with the five columns the source
  reads; the table is \<open>empty\<close> when it has no row. Either call may raise.
\<close>

record info =
  previousClose :: "rat option"
  longName :: "string option"
  info_marketCap :: "int option"
  info_sector :: "string option"
  info_industry :: "string option"

record row =
  Open :: rat
  High :: rat
  Low :: rat
  Close :: rat
  Volume :: rat

datatype presult = Raises | Fetched info "row list"

text \<open>\<open>info.get(key, default)\<close>.\<close>

definition dict_get :: "'a option \<Rightarrow> 'a \<Rightarrow> 'a" where
  "dict_get entry dflt = (case entry of None \<Rightarrow> dflt | Some v \<Rightarrow> v)"

text \<open>\<open>(change / prev_close) * 100 if prev_close else 0\<close>\<close>

definition change_percent_of :: "rat \<Rightarrow> rat \<Rightarrow> py_error + rat" where
  "change_percent_of chg prev_close =
     (if prev_close \<noteq> 0 then bind_err (py_div chg prev_close) (\<lambda>d. Inr (d * 100))
      else Inr 0)"

text \<open>\<open>round(history[col].iloc[-1], 2) if not history[col].empty else None\<close>\<close>

definition rounded_last :: "rat list \<Rightarrow> py_error + rat option" where
  "rounded_last col =
     (if col \<noteq> [] then bind_err (iloc_last col) (\<lambda>v. Inr (Some (round2 v))) else Inr None)"

text \<open>\<open>int(history['Volume'].iloc[-1]) if not history['Volume'].empty else 0\<close>\<close>

definition volume_of :: "rat list \<Rightarrow> py_error + int" where
  "volume_of col =
     (if col \<noteq> [] then bind_err (iloc_last col) (\<lambda>v. Inr (py_int v)) else Inr 0)"

text \<open>
  The body of the \<open>try\<close> block of \<open>get_stock_data\<close> from \<open>current_price = ...\<close> to the
  end of the dictionary literal, for a history that is not empty.
\<close>

definition build_result :: "string \<Rightarrow> info \<Rightarrow> row list \<Rightarrow> py_error + quote" where
  "build_result sname tinfo history =
     bind_err (iloc_last (map Close history)) (\<lambda>current_price.
       let prev_close = dict_get (previousClose tinfo) current_price;
           chg = current_price - prev_close
       in
       bind_err (change_percent_of chg prev_close) (\<lambda>change_percent.
       bind_err (rounded_last (map Open history)) (\<lambda>open_val.
       bind_err (rounded_last (map High history)) (\<lambda>high_val.
       bind_err (rounded_last (map Low history)) (\<lambda>low_val.
       bind_err (volume_of (map Volume history)) (\<lambda>vol.
         Inr \<lparr> symbol = sname,
               name = dict_get (longName tinfo) sname,
               price = round2 current_price,
               change = round2 chg,
               changePercent = round2 change_percent,
               open' = open_val,
               high = high_val,
               low = low_val,
               volume = vol,
               marketCap = dict_get (info_marketCap tinfo) 0,
               sector = dict_get (info_sector tinfo) ''N/A'',
               industry = dict_get (info_industry tinfo) ''N/A'' \<rparr>))))))"

subsection \<open>What the cache holds and what the routes answer\<close>

text \<open>An entry of the \<open>data\<close> list of the indices response.\<close>

record index_entry =
  idx_name :: string
  idx_symbol :: string
  idx_price :: rat
  idx_change :: rat
  idx_changePercent :: rat
  idx_timestamp :: time

text \<open>
  The dictionary \<open>response\<close> of the list routes; a \<open>timestamp\<close> is the clock reading
  that \<open>datetime.now(IST)\<close> formats.
\<close>

record 'a response =
  success :: bool
  count :: nat
  data :: "'a list"
  timestamp :: time

text \<open>
  The one dictionary \<open>cache\<close> holds quotes (under the keys \<open>stock_...\<close>) and whole
  responses (under the keys \<open>..._response\<close>); a value read from it is whichever was
  stored. All three are non-empty dictionaries, so Python's truth test accepts them.
\<close>

datatype pyval =
    PQuote quote
  | PResponse "quote response"
  | PIndices "index_entry response"

fun truthy :: "pyval \<Rightarrow> bool" where
  "truthy (PQuote q) = True"
| "truthy (PResponse r) = True"
| "truthy (PIndices r) = True"

text \<open>
  The surroundings of a request. \<open>clock n\<close> is what \<open>time.time()\<close> and
  \<open>datetime.now\<close> read at step \<open>n\<close>, and \<open>yf n s\<close> is what the provider does when it
  is asked for \<open>s\<close> at step \<open>n\<close>; neither is constrained.
\<close>

record env =
  clock :: "nat \<Rightarrow> time"
  yf :: "nat \<Rightarrow> string \<Rightarrow> presult"

text \<open>
  The state between steps: the dictionary and the step counter, and two logs that the
  source does not keep, for stating what is and is not fetched: the symbols the provider
  has been asked for, and the symbol lists \<open>fetch_stocks_concurrent\<close> has been called
  with.
\<close>

record world =
  cache :: "pyval cache"
  ticks :: nat
  calls :: "string list"
  fanouts :: "string list list"

definition tick :: "world \<Rightarrow> world" where
  "tick w = w\<lparr>ticks := Suc (ticks w)\<rparr>"

subsection \<open>\<open>get_stock_data\<close>\<close>

text \<open>
  The \<open>try\<close> block: the provider is asked, then an empty history returns \<open>None\<close>, and
  otherwise the quote is assembled, stored and returned. \<open>except Exception\<close> turns
  every exception of the block into \<open>None\<close>.
\<close>

definition fetch_fresh :: "env \<Rightarrow> world \<Rightarrow> string \<Rightarrow> pyval option \<times> world" where
  "fetch_fresh e w sname =
     (let w1 = tick (w\<lparr>calls := calls w @ [sname]\<rparr>) in
      case yf e (ticks w) sname of
        Raises \<Rightarrow> (None, w1)
      | Fetched tinfo history \<Rightarrow>
          if history = [] then (None, w1)
          else
            (case build_result sname tinfo history of
               Inl err \<Rightarrow> (None, w1)
             | Inr result \<Rightarrow>
                 (Some (PQuote result),
                  tick (w1\<lparr>cache := set_cached (cache w1) (clock e (ticks w1))
                                      (''stock_'' @ sname) (PQuote result)\<rparr>))))"

definition get_stock_data :: "env \<Rightarrow> world \<Rightarrow> string \<Rightarrow> pyval option \<times> world" where
  "get_stock_data e w sname =
     (case get_cached (cache w) (clock e (ticks w)) (''stock_'' @ sname) of
        Some cached \<Rightarrow>
          if truthy cached then (Some cached, tick w) else fetch_fresh e (tick w) sname
      | None \<Rightarrow> fetch_fresh e (tick w) sname)"

subsection \<open>\<open>fetch_stocks_concurrent\<close>\<close>

text \<open>
  \<open>as_completed\<close> yields the futures in the order in which they finish, which the source
  does not control. The order is a parameter: each number of \<open>sched\<close> picks, among the
  futures still pending (in submission order), the one that finishes next; when \<open>sched\<close>
  runs out the remaining ones finish in submission order. Every order of completion is
  obtained from some \<open>sched\<close>, and every \<open>sched\<close> gives an order.
\<close>

fun as_completed :: "nat list \<Rightarrow> 'a list \<Rightarrow> 'a list" where
  "as_completed [] pending = pending"
| "as_completed (n # ns) pending =
     (if pending = [] then []
      else (let i = n mod length pending in
            pending ! i # as_completed ns (take i pending @ drop (Suc i) pending)))"

text \<open>
  The workers. Each call of \<open>get_stock_data\<close> is taken as one step sequence of its own,
  the calls following one another in the order of completion.
\<close>

fun run_futures :: "env \<Rightarrow> world \<Rightarrow> string list \<Rightarrow> pyval option list \<times> world" where
  "run_futures e w [] = ([], w)"
| "run_futures e w (s # ss) =
     (let (d, w1) = get_stock_data e w s;
          (ds, w2) = run_futures e w1 ss
      in (d # ds, w2))"

text \<open>The loop \<open>if data: results.append(data)\<close> over the finished futures.\<close>

fun collect :: "pyval option list \<Rightarrow> pyval list" where
  "collect [] = []"
| "collect (None # ds) = collect ds"
| "collect (Some d # ds) = (if truthy d then d # collect ds else collect ds)"

definition fetch_stocks_concurrent ::
    "env \<Rightarrow> world \<Rightarrow> nat list \<Rightarrow> string list \<Rightarrow> pyval list \<times> world" where
  "fetch_stocks_concurrent e w sched symbols =
     (let (ds, w1) = run_futures e (w\<lparr>fanouts := fanouts w @ [symbols]\<rparr>)
                       (as_completed sched symbols)
      in (collect ds, w1))"

subsection \<open>Strings\<close>

text \<open>
  \<open>str.upper()\<close> on a byte string: the letters a to z move to A to Z and every other
  byte stays. The symbols of the tables below are ASCII; what Python's \<open>upper\<close> does to
  characters outside ASCII is not modelled.
\<close>

definition upper_char :: "char \<Rightarrow> char" where
  "upper_char c =
     (let n = (of_char c :: nat) in if 97 \<le> n \<and> n \<le> 122 then char_of (n - 32) else c)"

definition upper :: "string \<Rightarrow> string" where
  "upper s = map upper_char s"

text \<open>\<open>s.endswith(suf)\<close>\<close>

definition endswith :: "string \<Rightarrow> string \<Rightarrow> bool" where
  "endswith s suf = (length suf \<le> length s \<and> drop (length s - length suf) s = suf)"

text \<open>\<open>q in s\<close> on strings: \<open>q\<close> starts at some position of \<open>s\<close>.\<close>

fun contains :: "string \<Rightarrow> string \<Rightarrow> bool" where
  "contains [] q = (q = [])"
| "contains (c # cs) q = (take (length q) (c # cs) = q \<or> contains cs q)"

subsection \<open>The symbol tables\<close>

text \<open>The dictionary \<open>NSE_INDICES\<close>, in the order of its literal.\<close>

definition NSE_INDICES :: "(string \<times> string) list" where
  "NSE_INDICES =
     [(''NIFTY 50'', ''^NSEI''), (''SENSEX'', ''^BSESN''), (''BANK NIFTY'', ''^NSEBANK''),
      (''NIFTY IT'', ''^CNXIT''), (''NIFTY PHARMA'', ''^CNXPHARMA''),
      (''NIFTY AUTO'', ''^CNXAUTO'')]"

definition NIFTY_50_STOCKS :: "string list" where
  "NIFTY_50_STOCKS =
     [''RELIANCE.NS'', ''TCS.NS'', ''HDFCBANK.NS'', ''INFY.NS'', ''ICICIBANK.NS'',
      ''HINDUNILVR.NS'', ''ITC.NS'', ''SBIN.NS'', ''BHARTIARTL.NS'', ''KOTAKBANK.NS'',
      ''LT.NS'', ''AXISBANK.NS'', ''ASIANPAINT.NS'', ''MARUTI.NS'', ''SUNPHARMA.NS'',
      ''TITAN.NS'', ''WIPRO.NS'', ''TATAMOTORS.NS'', ''BAJFINANCE.NS'', ''M&M.NS'',
      ''NESTLEIND.NS'', ''HCLTECH.NS'', ''ULTRACEMCO.NS'', ''ONGC.NS'', ''POWERGRID.NS'',
      ''NTPC.NS'', ''JSWSTEEL.NS'', ''TATASTEEL.NS'', ''ADANIENT.NS'', ''ADANIPORTS.NS'']"

subsection \<open>\<open>market_status\<close>\<close>

text \<open>
  What the route reads of \<open>datetime.now(IST)\<close>: \<open>weekday()\<close> (Monday is 0, Sunday 6) and
  the fields of \<open>time()\<close>.
\<close>

record datetime =
  weekday :: nat
  hour :: nat
  minute :: nat
  second :: nat

record status_reply =
  isOpen :: bool
  stamp :: datetime
  day :: string
  message :: string

text \<open>\<open>now.strftime('%A')\<close>\<close>

definition day_name :: "nat \<Rightarrow> string" where
  "day_name d =
     [''Monday'', ''Tuesday'', ''Wednesday'', ''Thursday'', ''Friday'', ''Saturday'',
      ''Sunday''] ! (d mod 7)"

definition market_status :: "datetime \<Rightarrow> status_reply" where
  "market_status now =
     (let is_weekday = weekday now < 5;
          market_open = (is_weekday \<and>
             ((hour now = 9 \<and> minute now \<ge> 15) \<or>
              (9 < hour now \<and> hour now < 15) \<or>
              (hour now = 15 \<and> minute now \<le> 30)))
      in \<lparr> isOpen = market_open,
            stamp = now,
            day = day_name (weekday now),
            message = (if market_open then ''Market is open'' else ''Market is closed'') \<rparr>)"

subsection \<open>The list routes\<close>

text \<open>
  Reading \<open>x['changePercent']\<close> or \<open>data['symbol']\<close> of every element of a fetched
  list, in order: a quote has the key, a cached response does not, and the first element
  without it raises KeyError. A route that raises answers with an error and no body
  (\<open>Inl\<close>).
\<close>

fun as_quotes :: "pyval list \<Rightarrow> py_error + quote list" where
  "as_quotes [] = Inr []"
| "as_quotes (PQuote q # vs) = bind_err (as_quotes vs) (\<lambda>qs. Inr (q # qs))"
| "as_quotes (v # vs) = Inl KeyError"

text \<open>
  \<open>list.sort(key=k, reverse=True)\<close> is stable: elements with equal keys keep their
  order. It is the stable ascending sort on the negated key.
\<close>

definition sort_reverse :: "('a \<Rightarrow> rat) \<Rightarrow> 'a list \<Rightarrow> 'a list" where
  "sort_reverse k xs = sort_key (\<lambda>x. - k x) xs"

text \<open>The tail every list route shares: build \<open>response\<close>, store it, return it.\<close>

definition respond ::
    "env \<Rightarrow> world \<Rightarrow> string \<Rightarrow> quote list \<Rightarrow> (py_error + pyval) \<times> world" where
  "respond e w key rows =
     (let response = PResponse \<lparr> success = True, count = length rows, data = rows,
                                 timestamp = clock e (ticks w) \<rparr>;
          w1 = tick w
      in (Inr response,
          tick (w1\<lparr>cache := set_cached (cache w1) (clock e (ticks w1)) key response\<rparr>)))"

text \<open>The loop of \<open>get_indices\<close> that maps the results back to names.\<close>

fun index_rows ::
    "env \<Rightarrow> (string \<rightharpoonup> string) \<Rightarrow> world \<Rightarrow> pyval list \<Rightarrow>
     (py_error + index_entry list) \<times> world" where
  "index_rows e symbol_to_name w [] = (Inr [], w)"
| "index_rows e symbol_to_name w (PQuote q # ds) =
     (let entry = \<lparr> idx_name = dict_get (symbol_to_name (symbol q)) (symbol q),
                     idx_symbol = symbol q,
                     idx_price = price q,
                     idx_change = change q,
                     idx_changePercent = changePercent q,
                     idx_timestamp = clock e (ticks w) \<rparr>
      in case index_rows e symbol_to_name (tick w) ds of
           (Inl err, w1) \<Rightarrow> (Inl err, w1)
         | (Inr entries, w1) \<Rightarrow> (Inr (entry # entries), w1))"
| "index_rows e symbol_to_name w (d # ds) = (Inl KeyError, w)"

text \<open>\<open>dict(zip(keys, values))\<close>: of two pairs with one key the later one stays.\<close>

definition dict_zip :: "'k list \<Rightarrow> 'v list \<Rightarrow> ('k \<rightharpoonup> 'v)" where
  "dict_zip ks vs = map_of (rev (zip ks vs))"

definition build_indices :: "env \<Rightarrow> world \<Rightarrow> nat list \<Rightarrow> (py_error + pyval) \<times> world" where
  "build_indices e w sched =
     (let symbols = map snd NSE_INDICES;
          (results, w1) = fetch_stocks_concurrent e w sched symbols;
          symbol_to_name = dict_zip (map snd NSE_INDICES) (map fst NSE_INDICES)
      in case index_rows e symbol_to_name w1 results of
           (Inl err, w2) \<Rightarrow> (Inl err, w2)
         | (Inr indices_data, w2) \<Rightarrow>
             (let response = PIndices \<lparr> success = True, count = length indices_data,
                                         data = indices_data,
                                         timestamp = clock e (ticks w2) \<rparr>;
                  w3 = tick w2
              in (Inr response,
                  tick (w3\<lparr>cache := set_cached (cache w3) (clock e (ticks w3))
                                      ''indices_response'' response\<rparr>))))"

definition build_stocks :: "env \<Rightarrow> world \<Rightarrow> nat list \<Rightarrow> (py_error + pyval) \<times> world" where
  "build_stocks e w sched =
     (let (stocks_data, w1) = fetch_stocks_concurrent e w sched (take 20 NIFTY_50_STOCKS)
      in case as_quotes stocks_data of
           Inl err \<Rightarrow> (Inl err, w1)
         | Inr qs \<Rightarrow>
             respond e w1 ''stocks_response''
               (sort_reverse (\<lambda>x. \<bar>changePercent x\<bar>) qs))"

definition build_gainers :: "env \<Rightarrow> world \<Rightarrow> nat list \<Rightarrow> (py_error + pyval) \<times> world" where
  "build_gainers e w sched =
     (let (all_stocks, w1) = fetch_stocks_concurrent e w sched (take 30 NIFTY_50_STOCKS)
      in case as_quotes all_stocks of
           Inl err \<Rightarrow> (Inl err, w1)
         | Inr qs \<Rightarrow>
             (let stocks_data = sort_reverse changePercent
                                  (filter (\<lambda>s. changePercent s > 0) qs)
              in respond e w1 ''gainers_response'' (take 10 stocks_data)))"

definition build_losers :: "env \<Rightarrow> world \<Rightarrow> nat list \<Rightarrow> (py_error + pyval) \<times> world" where
  "build_losers e w sched =
     (let (all_stocks, w1) = fetch_stocks_concurrent e w sched (take 30 NIFTY_50_STOCKS)
      in case as_quotes all_stocks of
           Inl err \<Rightarrow> (Inl err, w1)
         | Inr qs \<Rightarrow>
             (let stocks_data = sort_key changePercent
                                  (filter (\<lambda>s. changePercent s < 0) qs)
              in respond e w1 ''losers_response'' (take 10 stocks_data)))"

text \<open>
  The head every cached route shares: a fresh, true entry under the route's key is
  returned as it is, otherwise the response is built.
\<close>

definition cached_route ::
    "string \<Rightarrow> (env \<Rightarrow> world \<Rightarrow> nat list \<Rightarrow> (py_error + pyval) \<times> world) \<Rightarrow>
     env \<Rightarrow> world \<Rightarrow> nat list \<Rightarrow> (py_error + pyval) \<times> world" where
  "cached_route key build e w sched =
     (case get_cached (cache w) (clock e (ticks w)) key of
        Some cached \<Rightarrow>
          if truthy cached then (Inr cached, tick w) else build e (tick w) sched
      | None \<Rightarrow> build e (tick w) sched)"

definition get_indices :: "env \<Rightarrow> world \<Rightarrow> nat list \<Rightarrow> (py_error + pyval) \<times> world" where
  "get_indices = cached_route ''indices_response'' build_indices"

definition get_stocks :: "env \<Rightarrow> world \<Rightarrow> nat list \<Rightarrow> (py_error + pyval) \<times> world" where
  "get_stocks = cached_route ''stocks_response'' build_stocks"

definition get_gainers :: "env \<Rightarrow> world \<Rightarrow> nat list \<Rightarrow> (py_error + pyval) \<times> world" where
  "get_gainers = cached_route ''gainers_response'' build_gainers"

definition get_losers :: "env \<Rightarrow> world \<Rightarrow> nat list \<Rightarrow> (py_error + pyval) \<times> world" where
  "get_losers = cached_route ''losers_response'' build_losers"

subsection \<open>\<open>get_single_stock\<close> and \<open>search_stocks\<close>\<close>

text \<open>
  The body and the status code of the answer of \<open>/api/stock/<symbol>\<close>; a key the
  dictionary does not have is \<open>None\<close>. An answer without an explicit code has code 200.
\<close>

record stock_reply =
  sr_success :: bool
  sr_data :: "pyval option"
  sr_timestamp :: "time option"
  sr_error :: "string option"

text \<open>The statement \<open>if not symbol.endswith('.NS') and not symbol.endswith('.BO')\<close>.\<close>

definition add_suffix :: "string \<Rightarrow> string" where
  "add_suffix sname =
     (if \<not> endswith sname ''.NS'' \<and> \<not> endswith sname ''.BO'' then sname @ ''.NS''
      else sname)"

definition get_single_stock :: "env \<Rightarrow> world \<Rightarrow> string \<Rightarrow> (stock_reply \<times> nat) \<times> world" where
  "get_single_stock e w sname =
     (let (d, w1) = get_stock_data e w (add_suffix sname);
          not_found = \<lparr> sr_success = False, sr_data = None, sr_timestamp = None,
                        sr_error = Some ''Stock not found or data unavailable'' \<rparr>
      in case d of
           None \<Rightarrow> ((not_found, 404), w1)
         | Some v \<Rightarrow>
             if truthy v
             then ((\<lparr> sr_success = True, sr_data = Some v,
                       sr_timestamp = Some (clock e (ticks w1)), sr_error = None \<rparr>, 200),
                   tick w1)
             else ((not_found, 404), w1))"

record search_reply =
  s_success :: bool
  s_query :: string
  s_count :: nat
  s_data :: "pyval list"

text \<open>\<open>[s for s in NIFTY_50_STOCKS if query in s.upper()]\<close>, \<open>query\<close> already upper-cased.\<close>

definition matching_symbols :: "string \<Rightarrow> string list" where
  "matching_symbols query = filter (\<lambda>s. contains (upper s) query) NIFTY_50_STOCKS"

definition search_stocks :: "env \<Rightarrow> world \<Rightarrow> nat list \<Rightarrow> string \<Rightarrow> search_reply \<times> world" where
  "search_stocks e w sched query0 =
     (let query = upper query0;
          matching = matching_symbols query;
          (results, w1) = (if matching \<noteq> [] then fetch_stocks_concurrent e w sched matching
                           else ([], w))
      in (\<lparr> s_success = True, s_query = query, s_count = length results,
             s_data = results \<rparr>, w1))"

subsection \<open>Caches the program can reach\<close>

text \<open>
  Only \<open>get_stock_data\<close> stores under a key that starts with \<open>stock_\<close>, and it stores
  a quote. The routes read such entries as quotes; in a cache where another dictionary
  sat under such a key they would raise KeyError.
\<close>

definition stock_entries_are_quotes :: "pyval cache \<Rightarrow> bool" where
  "stock_entries_are_quotes c =
     (\<forall>s v t. c (''stock_'' @ s) = Some (v, t) \<longrightarrow> (\<exists>q. v = PQuote q))"

subsection \<open>A concrete provider, clock and state\<close>

text \<open>
  Used to run the definitions: a clock that advances 10 seconds per step, a provider that
  knows three symbols and raises on every other one, and the state at start-up.
\<close>

definition demo_clock :: "nat \<Rightarrow> time" where
  "demo_clock n = 1000 + 10 * of_nat n"

definition demo_row :: row where
  "demo_row = \<lparr> Open = 1001 / 10, High = 1035 / 10, Low = 995 / 10,
                Close = 10234567 / 100000, Volume = 1234567 \<rparr>"

definition demo_yf :: "nat \<Rightarrow> string \<Rightarrow> presult" where
  "demo_yf n s =
     (if s = ''INFY.NS'' then
        Fetched \<lparr> previousClose = Some 100, longName = Some ''Infosys Limited'',
                  info_marketCap = Some 6000000, info_sector = Some ''Technology'',
                  info_industry = None \<rparr> [demo_row]
      else if s = ''ZERO.NS'' then
        Fetched \<lparr> previousClose = Some 0, longName = None, info_marketCap = None,
                  info_sector = None, info_industry = None \<rparr> [demo_row]
      else if s = ''EMPTY.NS'' then
        Fetched \<lparr> previousClose = None, longName = None, info_marketCap = None,
                  info_sector = None, info_industry = None \<rparr> []
      else Raises)"

definition demo_env :: env where
  "demo_env = \<lparr> clock = demo_clock, yf = demo_yf \<rparr>"

definition empty_world :: world where
  "empty_world = \<lparr> cache = Map.empty, ticks = 0, calls = [], fanouts = [] \<rparr>"

text \<open>The numbers \<open>weekday()\<close> gives two of the days.\<close>

definition Monday :: nat where
  "Monday = 0"

definition Saturday :: nat where
  "Saturday = 5"

text \<open>
  A provider for the whole list: it raises on the symbols that start with A, and for
  every other symbol its last close is the length of the symbol and its previous close
  is 10, so that symbols longer than ten characters gain and shorter ones lose.
\<close>

definition market_yf :: "nat \<Rightarrow> string \<Rightarrow> presult" where
  "market_yf n s =
     (if take 1 s = ''A'' then Raises
      else Fetched \<lparr> previousClose = Some 10, longName = None, info_marketCap = None,
                     info_sector = None, info_industry = None \<rparr>
                   [\<lparr> Open = 10, High = of_nat (length s), Low = 10,
                      Close = of_nat (length s), Volume = 1000 \<rparr>])"

definition market_env :: env where
  "market_env = \<lparr> clock = demo_clock, yf = market_yf \<rparr>"

text \<open>The names and percentages of a response, for display.\<close>

definition movers :: "py_error + pyval \<Rightarrow> (string \<times> rat) list" where
  "movers r =
     (case r of Inr (PResponse p) \<Rightarrow> map (\<lambda>q. (symbol q, changePercent q)) (data p)
      | _ \<Rightarrow> [])"

text \<open>A provider that is down: every call raises.\<close>

definition dead_env :: env where
  "dead_env = \<lparr> clock = demo_clock, yf = (\<lambda>n s. Raises) \<rparr>"

section \<open>Properties\<close>

subsection \<open>The cache\<close>

lemma set_cached_all_other:
  "\<forall>p \<in> set puts. fst p \<noteq> k \<Longrightarrow> set_cached_all c puts k = c k"
proof (induction puts arbitrary: c)
  case Nil
  then show ?case by (simp add: set_cached_all_def)
next
  case (Cons p puts)
  obtain k' d t where p: "p = (k', d, t)" by (cases p) auto
  from Cons.prems p have ne: "k' \<noteq> k" by simp
  have "set_cached_all c (p # puts) k = set_cached_all (set_cached c t k' d) puts k"
    by (simp add: set_cached_all_def p)
  also have "\<dots> = set_cached c t k' d k"
    using Cons.IH [of "set_cached c t k' d"] Cons.prems by simp
  also have "\<dots> = c k"
    using ne by (simp add: set_cached_def)
  finally show ?case .
qed

text \<open>
  Claim C1. After \<open>set_cached(k, v)\<close> at time \<open>t0\<close>, and any run of stores under other
  keys, \<open>get_cached(k)\<close> at time \<open>t1\<close> returns \<open>v\<close> when less than 60 seconds have
  passed (\<open>t1 - t0 < 60\<close>) and \<open>None\<close> when 60 seconds or more have passed. Lookups
  write nothing, so they need not be listed among the intervening operations.
\<close>

theorem ttl_correctness:
  assumes "\<forall>p \<in> set puts. fst p \<noteq> k"
  shows "get_cached (set_cached_all (set_cached c t0 k v) puts) t1 k =
           (if t1 - t0 < 60 then Some v else None)"
proof -
  have "set_cached_all (set_cached c t0 k v) puts k = Some (v, t0)"
    using set_cached_all_other [OF assms] by (simp add: set_cached_def)
  then show ?thesis
    by (simp add: get_cached_def CACHE_TTL_def)
qed

theorem ttl_correctness_witness:
  "''b'' \<noteq> ''a'' \<and>
   get_cached (set_cached_all (set_cached Map.empty 100 ''a'' 1) [(''b'', 2::nat, 130)]) 159 ''a''
     = Some 1 \<and>
   get_cached (set_cached_all (set_cached Map.empty 100 ''a'' 1) [(''b'', 2::nat, 130)]) 160 ''a''
     = None"
  using ttl_correctness [of "[(''b'', 2::nat, 130)]" "''a''" Map.empty 100 1 159]
        ttl_correctness [of "[(''b'', 2::nat, 130)]" "''a''" Map.empty 100 1 160]
  by simp

subsection \<open>Rounding and the quote assembly\<close>


lemma round2_zero: "round2 0 = 0"
  by (simp add: round2_def round_half_even_def)



lemma build_result_nonempty:
  assumes "history \<noteq> []"
  shows "build_result sname tinfo history =
     Inr \<lparr> symbol = sname,
           name = dict_get (longName tinfo) sname,
           price = round2 (Close (last history)),
           change = round2 (Close (last history)
                      - dict_get (previousClose tinfo) (Close (last history))),
           changePercent =
             (if dict_get (previousClose tinfo) (Close (last history)) = 0 then 0
              else round2 ((Close (last history)
                      - dict_get (previousClose tinfo) (Close (last history)))
                     / dict_get (previousClose tinfo) (Close (last history)) * 100)),
           open' = Some (round2 (Open (last history))),
           high = Some (round2 (High (last history))),
           low = Some (round2 (Low (last history))),
           volume = py_int (Volume (last history)),
           marketCap = dict_get (info_marketCap tinfo) 0,
           sector = dict_get (info_sector tinfo) ''N/A'',
           industry = dict_get (info_industry tinfo) ''N/A'' \<rparr>"
  using assms
  by (simp add: build_result_def bind_err_def iloc_last_def change_percent_of_def py_div_def
      rounded_last_def volume_of_def last_map Let_def round2_zero)

subsection \<open>One call of \<open>get_stock_data\<close>\<close>

lemma truthy_all [simp]: "truthy v"
  by (cases v) simp_all

lemma fetch_fresh_fails:
  assumes "yf e (ticks w) s = Raises \<or> (\<exists>tinfo. yf e (ticks w) s = Fetched tinfo [])"
  shows "fetch_fresh e w s = (None, w\<lparr>ticks := Suc (ticks w), calls := calls w @ [s]\<rparr>)"
  using assms by (auto simp: fetch_fresh_def tick_def)

lemma fetch_fresh_succeeds:
  assumes "yf e (ticks w) s = Fetched tinfo history" and "history \<noteq> []"
  shows "\<exists>q. build_result s tinfo history = Inr q \<and>
           fetch_fresh e w s =
             (Some (PQuote q),
              w\<lparr>cache := (cache w)(''stock_'' @ s \<mapsto> (PQuote q, clock e (Suc (ticks w)))),
                ticks := Suc (Suc (ticks w)), calls := calls w @ [s]\<rparr>)"
  using assms build_result_nonempty [OF assms(2), of s tinfo]
  by (simp add: fetch_fresh_def tick_def set_cached_def)

lemma get_stock_data_miss:
  assumes "get_cached (cache w) (clock e (ticks w)) (''stock_'' @ s) = None"
  shows "get_stock_data e w s = fetch_fresh e (tick w) s"
  using assms by (simp add: get_stock_data_def)

lemma get_stock_data_hit:
  assumes "get_cached (cache w) (clock e (ticks w)) (''stock_'' @ s) = Some v"
  shows "get_stock_data e w s = (Some v, tick w)"
  using assms by (simp add: get_stock_data_def)

lemma fetch_fresh_cases:
  "(\<exists>w'. fetch_fresh e w s = (None, w') \<and> cache w' = cache w \<and> calls w' = calls w @ [s]) \<or>
   (\<exists>q t w'. fetch_fresh e w s = (Some (PQuote q), w') \<and>
        cache w' = (cache w)(''stock_'' @ s \<mapsto> (PQuote q, t)) \<and> calls w' = calls w @ [s])"
proof (cases "yf e (ticks w) s")
  case Raises
  then show ?thesis using fetch_fresh_fails [of e w s] by simp
next
  case (Fetched tinfo history)
  show ?thesis
  proof (cases "history = []")
    case True
    with Fetched show ?thesis using fetch_fresh_fails [of e w s] by simp
  next
    case False
    from fetch_fresh_succeeds [OF Fetched False] show ?thesis by auto
  qed
qed

text \<open>What one call of get_stock_data can do to the cache and the call log.\<close>

lemma get_stock_data_cases:
  "(\<exists>v t. cache w (''stock_'' @ s) = Some (v, t) \<and> get_stock_data e w s = (Some v, tick w)) \<or>
   (\<exists>w'. get_stock_data e w s = (None, w') \<and> cache w' = cache w \<and> calls w' = calls w @ [s]) \<or>
   (\<exists>q t w'. get_stock_data e w s = (Some (PQuote q), w') \<and>
        cache w' = (cache w)(''stock_'' @ s \<mapsto> (PQuote q, t)) \<and> calls w' = calls w @ [s])"
proof (cases "get_cached (cache w) (clock e (ticks w)) (''stock_'' @ s)")
  case None
  then show ?thesis
    using fetch_fresh_cases [of e "tick w" s] by (simp add: get_stock_data_miss tick_def)
next
  case (Some v)
  then obtain t where "cache w (''stock_'' @ s) = Some (v, t)"
    by (auto simp: get_cached_def split: option.splits if_splits)
  with Some show ?thesis by (simp add: get_stock_data_hit)
qed



lemma stock_entries_are_quotesD:
  "stock_entries_are_quotes c \<Longrightarrow> c (''stock_'' @ s) = Some (v, t) \<Longrightarrow> \<exists>q. v = PQuote q"
  unfolding stock_entries_are_quotes_def by blast

lemma stock_entries_are_quotes_upd:
  "stock_entries_are_quotes c \<Longrightarrow> stock_entries_are_quotes (c(k \<mapsto> (PQuote q, t)))"
  unfolding stock_entries_are_quotes_def by (simp del: append.simps)

lemma get_stock_data_quotes:
  assumes inv: "stock_entries_are_quotes (cache w)" and run: "get_stock_data e w s = (d, w')"
  shows "(d = None \<or> (\<exists>q. d = Some (PQuote q))) \<and> stock_entries_are_quotes (cache w')"
proof -
  consider
    (hit) v t where "cache w (''stock_'' @ s) = Some (v, t)"
      "get_stock_data e w s = (Some v, tick w)"
  | (fail) w1 where "get_stock_data e w s = (None, w1)" "cache w1 = cache w"
  | (fresh) q t w1 where "get_stock_data e w s = (Some (PQuote q), w1)"
      "cache w1 = (cache w)(''stock_'' @ s \<mapsto> (PQuote q, t))"
    using get_stock_data_cases [of w s e] by blast
  then show ?thesis
  proof cases
    case hit
    from stock_entries_are_quotesD [OF inv hit(1)] obtain q where "v = PQuote q" ..
    with hit(2) run inv show ?thesis by (auto simp: tick_def)
  next
    case fail
    with run inv show ?thesis by auto
  next
    case fresh
    with run stock_entries_are_quotes_upd [OF inv] show ?thesis by auto
  qed
qed

lemma get_stock_data_fresh:
  assumes miss: "get_cached (cache w) (clock e (ticks w)) (''stock_'' @ s) = None"
      and prov: "yf e (Suc (ticks w)) s = Fetched tinfo history"
      and rows: "history \<noteq> []"
  shows "\<exists>q. build_result s tinfo history = Inr q \<and>
           fst (get_stock_data e w s) = Some (PQuote q)"
proof -
  have "yf e (ticks (tick w)) s = Fetched tinfo history"
    using prov by (simp add: tick_def)
  from fetch_fresh_succeeds [OF this rows] show ?thesis
    by (auto simp: get_stock_data_miss [OF miss])
qed


lemma demo_miss: "get_cached (cache empty_world) t k = None"
  by (simp add: empty_world_def get_cached_def)






lemma get_cached_stays_stale:
  "get_cached c t1 k = None \<Longrightarrow> t1 \<le> t2 \<Longrightarrow> get_cached c t2 k = None"
  by (auto simp: get_cached_def split: option.splits if_splits)

text \<open>
  Claim C5. When the cache has no fresh entry for \<open>S\<close> and the provider raises or
  returns an empty history, \<open>get_stock_data\<close> returns \<open>None\<close> (a value: nothing is
  raised to the caller), the cache is what it was, and the provider has been asked once
  for \<open>S\<close>. The next call for \<open>S\<close>, the clock not having gone back, asks the
  provider again, whatever it then answers.
\<close>

theorem no_cache_on_miss:
  assumes miss: "get_cached (cache w) (clock e (ticks w)) (''stock_'' @ s) = None"
      and fail: "yf e (Suc (ticks w)) s = Raises \<or>
                 (\<exists>tinfo. yf e (Suc (ticks w)) s = Fetched tinfo [])"
      and later: "clock e (ticks w) \<le> clock e (Suc (Suc (ticks w)))"
  shows "get_stock_data e w s =
           (None, w\<lparr>ticks := Suc (Suc (ticks w)), calls := calls w @ [s]\<rparr>) \<and>
         calls (snd (get_stock_data e (snd (get_stock_data e w s)) s)) = calls w @ [s, s]"
proof -
  let ?w1 = "w\<lparr>ticks := Suc (Suc (ticks w)), calls := calls w @ [s]\<rparr>"
  have "yf e (ticks (tick w)) s = Raises \<or>
        (\<exists>tinfo. yf e (ticks (tick w)) s = Fetched tinfo [])"
    using fail by (simp add: tick_def)
  from fetch_fresh_fails [OF this] have first: "get_stock_data e w s = (None, ?w1)"
    by (simp add: get_stock_data_miss [OF miss] tick_def)
  have "get_cached (cache ?w1) (clock e (ticks ?w1)) (''stock_'' @ s) = None"
    using get_cached_stays_stale [OF miss later] by simp
  then have "get_stock_data e ?w1 s = fetch_fresh e (tick ?w1) s"
    by (rule get_stock_data_miss)
  moreover have "calls (snd (fetch_fresh e (tick ?w1) s)) = calls (tick ?w1) @ [s]"
    using fetch_fresh_cases [of e "tick ?w1" s] by auto
  ultimately have "calls (snd (get_stock_data e ?w1 s)) = calls w @ [s, s]"
    by (simp add: tick_def)
  with first show ?thesis by simp
qed

lemma demo_ticks: "ticks empty_world = 0" "calls empty_world = []"
  by (simp_all add: empty_world_def)

theorem no_cache_on_miss_witness:
  "get_stock_data demo_env empty_world ''EMPTY.NS'' =
     (None, empty_world\<lparr>ticks := 2, calls := [''EMPTY.NS'']\<rparr>) \<and>
   get_stock_data demo_env empty_world ''GONE.NS'' =
     (None, empty_world\<lparr>ticks := 2, calls := [''GONE.NS'']\<rparr>) \<and>
   calls (snd (get_stock_data demo_env
            (snd (get_stock_data demo_env empty_world ''EMPTY.NS'')) ''EMPTY.NS''))
     = [''EMPTY.NS'', ''EMPTY.NS'']"
proof -
  have miss: "get_cached (cache empty_world) (clock demo_env (ticks empty_world))
                (''stock_'' @ sname) = None" for sname
    by (rule demo_miss)
  have later: "clock demo_env (ticks empty_world)
                 \<le> clock demo_env (Suc (Suc (ticks empty_world)))"
    by (simp add: demo_env_def demo_clock_def)
  have empty: "yf demo_env (Suc (ticks empty_world)) ''EMPTY.NS'' = Raises \<or>
      (\<exists>tinfo. yf demo_env (Suc (ticks empty_world)) ''EMPTY.NS'' = Fetched tinfo [])"
    by (simp add: demo_env_def demo_yf_def)
  have gone: "yf demo_env (Suc (ticks empty_world)) ''GONE.NS'' = Raises \<or>
      (\<exists>tinfo. yf demo_env (Suc (ticks empty_world)) ''GONE.NS'' = Fetched tinfo [])"
    by (simp add: demo_env_def demo_yf_def)
  have "get_stock_data demo_env empty_world ''EMPTY.NS'' =
      (None, empty_world\<lparr>ticks := 2, calls := [''EMPTY.NS'']\<rparr>)"
    using no_cache_on_miss [OF miss empty later, THEN conjunct1]
    by (simp add: demo_ticks numeral_2_eq_2)
  moreover have "get_stock_data demo_env empty_world ''GONE.NS'' =
      (None, empty_world\<lparr>ticks := 2, calls := [''GONE.NS'']\<rparr>)"
    using no_cache_on_miss [OF miss gone later, THEN conjunct1]
    by (simp add: demo_ticks numeral_2_eq_2)
  moreover have "calls (snd (get_stock_data demo_env
      (snd (get_stock_data demo_env empty_world ''EMPTY.NS'')) ''EMPTY.NS''))
        = [''EMPTY.NS'', ''EMPTY.NS'']"
    using no_cache_on_miss [OF miss empty later, THEN conjunct2]
    by (simp only: demo_ticks append_Nil)
  ultimately show ?thesis by blast
qed

subsection \<open>The market status\<close>

text \<open>
  Claim C6. \<open>market_status\<close> reports \<open>isOpen\<close> exactly when the weekday is Monday
  to Friday (\<open>weekday() < 5\<close>) and the time of day, in hours and minutes, lies from
  09:15 to 15:30, both included. The route never reads the seconds, so the whole minute
  15:30 counts as open. Saturday 10:00, Monday 09:14 and Monday 15:31 are closed; Monday
  09:15 and Monday 15:30 are open.
\<close>

theorem market_status_boundaries:
  assumes "minute now < 60"
  shows "(isOpen (market_status now) \<longleftrightarrow>
            weekday now < 5 \<and>
            9 * 60 + 15 \<le> hour now * 60 + minute now \<and>
            hour now * 60 + minute now \<le> 15 * 60 + 30) \<and>
         \<not> isOpen (market_status \<lparr>weekday = Saturday, hour = 10, minute = 0, second = sec\<rparr>) \<and>
         \<not> isOpen (market_status \<lparr>weekday = Monday, hour = 9, minute = 14, second = sec\<rparr>) \<and>
         isOpen (market_status \<lparr>weekday = Monday, hour = 9, minute = 15, second = sec\<rparr>) \<and>
         isOpen (market_status \<lparr>weekday = Monday, hour = 15, minute = 30, second = sec\<rparr>) \<and>
         \<not> isOpen (market_status \<lparr>weekday = Monday, hour = 15, minute = 31, second = sec\<rparr>)"
proof -
  have "isOpen (market_status now) \<longleftrightarrow>
          weekday now < 5 \<and>
          ((hour now = 9 \<and> 15 \<le> minute now) \<or> (9 < hour now \<and> hour now < 15) \<or>
           (hour now = 15 \<and> minute now \<le> 30))"
    by (simp add: market_status_def Let_def)
  also have "\<dots> \<longleftrightarrow> weekday now < 5 \<and>
            9 * 60 + 15 \<le> hour now * 60 + minute now \<and>
            hour now * 60 + minute now \<le> 15 * 60 + 30"
    using assms by auto
  finally show ?thesis
    by (simp add: market_status_def Monday_def Saturday_def)
qed

theorem market_status_boundaries_witness:
  "isOpen (market_status \<lparr>weekday = 2, hour = 12, minute = 0, second = 59\<rparr>) \<and>
   \<not> isOpen (market_status \<lparr>weekday = 6, hour = 12, minute = 0, second = 0\<rparr>) \<and>
   isOpen (market_status \<lparr>weekday = Monday, hour = 15, minute = 30, second = 59\<rparr>)"
  using market_status_boundaries [of "\<lparr>weekday = 2, hour = 12, minute = 0, second = 59\<rparr>" 59]
    market_status_boundaries [of "\<lparr>weekday = 6, hour = 12, minute = 0, second = 0\<rparr>" 59]
  by simp

subsection \<open>Suffixes, substrings and the single-stock lookup\<close>

lemma endswith_suffix: "endswith s suf \<longleftrightarrow> suffix suf s"
proof
  assume "endswith s suf"
  then have "s = take (length s - length suf) s @ suf"
    by (metis append_take_drop_id endswith_def)
  then show "suffix suf s"
    by (rule suffixI)
next
  assume "suffix suf s"
  then obtain p where "s = p @ suf" by (auto simp: suffix_def)
  then show "endswith s suf"
    by (simp add: endswith_def)
qed


lemma get_single_stock_unfold:
  "get_single_stock e w s =
     (case get_stock_data e w (add_suffix s) of
        (None, w1) \<Rightarrow>
          ((\<lparr> sr_success = False, sr_data = None, sr_timestamp = None,
              sr_error = Some ''Stock not found or data unavailable'' \<rparr>, 404), w1)
      | (Some v, w1) \<Rightarrow>
          ((\<lparr> sr_success = True, sr_data = Some v,
              sr_timestamp = Some (clock e (ticks w1)), sr_error = None \<rparr>, 200), tick w1))"
  by (simp add: get_single_stock_def Let_def split: prod.splits option.splits)

text \<open>
  Claim C8. The single-stock lookup passes to \<open>get_stock_data\<close> the symbol with
  \<open>.NS\<close> appended exactly when it ends with neither \<open>.NS\<close> nor \<open>.BO\<close> (\<open>INFY\<close>
  becomes \<open>INFY.NS\<close>, \<open>INFY.BO\<close> stays), and that is the symbol the provider is asked
  for when the cache has no fresh entry. The answer has code 404 and \<open>success\<close> false
  when the fetch result is absent, and code 200, \<open>success\<close> true and the fetched value
  as \<open>data\<close> otherwise.
\<close>

theorem single_stock_lookup:
  "add_suffix s = (if suffix ''.NS'' s \<or> suffix ''.BO'' s then s else s @ ''.NS'') \<and>
   add_suffix ''INFY'' = ''INFY.NS'' \<and>
   add_suffix ''INFY.BO'' = ''INFY.BO'' \<and>
   (fst (get_stock_data e w (add_suffix s)) = None \<longrightarrow>
      snd (fst (get_single_stock e w s)) = 404 \<and>
      \<not> sr_success (fst (fst (get_single_stock e w s))) \<and>
      sr_data (fst (fst (get_single_stock e w s))) = None) \<and>
   (\<forall>v. fst (get_stock_data e w (add_suffix s)) = Some v \<longrightarrow>
      snd (fst (get_single_stock e w s)) = 200 \<and>
      sr_success (fst (fst (get_single_stock e w s))) \<and>
      sr_data (fst (fst (get_single_stock e w s))) = Some v) \<and>
   calls (snd (get_single_stock e w s)) = calls (snd (get_stock_data e w (add_suffix s))) \<and>
   cache (snd (get_single_stock e w s)) = cache (snd (get_stock_data e w (add_suffix s))) \<and>
   (get_cached (cache w) (clock e (ticks w)) (''stock_'' @ add_suffix s) = None \<longrightarrow>
      calls (snd (get_single_stock e w s)) = calls w @ [add_suffix s])"
proof -
  have norm: "add_suffix s = (if suffix ''.NS'' s \<or> suffix ''.BO'' s then s else s @ ''.NS'')"
    by (simp add: add_suffix_def endswith_suffix)
  have ex: "add_suffix ''INFY'' = ''INFY.NS''" "add_suffix ''INFY.BO'' = ''INFY.BO''"
    by (simp_all add: add_suffix_def endswith_def)
  obtain d w1 where run: "get_stock_data e w (add_suffix s) = (d, w1)"
    by (cases "get_stock_data e w (add_suffix s)")
  have unf: "get_single_stock e w s =
      (case d of
         None \<Rightarrow>
           ((\<lparr> sr_success = False, sr_data = None, sr_timestamp = None,
               sr_error = Some ''Stock not found or data unavailable'' \<rparr>, 404), w1)
       | Some v \<Rightarrow>
           ((\<lparr> sr_success = True, sr_data = Some v,
               sr_timestamp = Some (clock e (ticks w1)), sr_error = None \<rparr>, 200), tick w1))"
    by (simp add: get_single_stock_unfold run)
  have r1: "d = None \<longrightarrow>
      snd (fst (get_single_stock e w s)) = 404 \<and>
      \<not> sr_success (fst (fst (get_single_stock e w s))) \<and>
      sr_data (fst (fst (get_single_stock e w s))) = None"
    by (simp add: unf)
  have r2: "\<forall>v. d = Some v \<longrightarrow>
      snd (fst (get_single_stock e w s)) = 200 \<and>
      sr_success (fst (fst (get_single_stock e w s))) \<and>
      sr_data (fst (fst (get_single_stock e w s))) = Some v"
    by (simp add: unf)
  have r3: "calls (snd (get_single_stock e w s)) = calls w1"
    and r4: "cache (snd (get_single_stock e w s)) = cache w1"
    by (cases d; simp add: unf tick_def)+
  have asked: "get_cached (cache w) (clock e (ticks w)) (''stock_'' @ add_suffix s) = None \<longrightarrow>
      calls (snd (get_single_stock e w s)) = calls w @ [add_suffix s]"
  proof
    assume miss: "get_cached (cache w) (clock e (ticks w)) (''stock_'' @ add_suffix s) = None"
    have "calls (snd (fetch_fresh e (tick w) (add_suffix s))) = calls (tick w) @ [add_suffix s]"
      using fetch_fresh_cases [of e "tick w" "add_suffix s"] by auto
    then have "calls w1 = calls w @ [add_suffix s]"
      using run by (simp add: get_stock_data_miss [OF miss] tick_def)
    with r3 show "calls (snd (get_single_stock e w s)) = calls w @ [add_suffix s]"
      by simp
  qed
  show ?thesis
    unfolding run fst_conv snd_conv by (intro conjI norm ex r1 r2 r3 r4 asked)
qed

lemma demo_gone: "fst (get_stock_data demo_env empty_world ''GONE.NS'') = None"
proof -
  have "yf demo_env (ticks (tick empty_world)) ''GONE.NS'' = Raises \<or>
      (\<exists>tinfo. yf demo_env (ticks (tick empty_world)) ''GONE.NS'' = Fetched tinfo [])"
    by (simp add: demo_env_def demo_yf_def)
  from fetch_fresh_fails [OF this] show ?thesis
    by (simp add: get_stock_data_miss [OF demo_miss])
qed

lemma demo_infy: "\<exists>q. fst (get_stock_data demo_env empty_world ''INFY.NS'') = Some (PQuote q)"
proof -
  have "yf demo_env (Suc (ticks empty_world)) ''INFY.NS'' =
      Fetched \<lparr> previousClose = Some 100, longName = Some ''Infosys Limited'',
                info_marketCap = Some 6000000, info_sector = Some ''Technology'',
                info_industry = None \<rparr> [demo_row]"
    by (simp add: demo_env_def demo_yf_def)
  from get_stock_data_fresh [OF demo_miss this] show ?thesis by auto
qed

theorem single_stock_lookup_witness:
  "snd (fst (get_single_stock demo_env empty_world ''GONE'')) = 404 \<and>
   \<not> sr_success (fst (fst (get_single_stock demo_env empty_world ''GONE''))) \<and>
   calls (snd (get_single_stock demo_env empty_world ''GONE'')) = [''GONE.NS''] \<and>
   snd (fst (get_single_stock demo_env empty_world ''INFY'')) = 200 \<and>
   sr_success (fst (fst (get_single_stock demo_env empty_world ''INFY''))) \<and>
   calls (snd (get_single_stock demo_env empty_world ''INFY'')) = [''INFY.NS'']"
proof -
  have gone: "add_suffix ''GONE'' = ''GONE.NS''" and infy: "add_suffix ''INFY'' = ''INFY.NS''"
    by (simp_all add: add_suffix_def endswith_def)
  obtain q where q: "fst (get_stock_data demo_env empty_world (add_suffix ''INFY'')) = Some (PQuote q)"
    using demo_infy unfolding infy by blast
  have g: "fst (get_stock_data demo_env empty_world (add_suffix ''GONE'')) = None"
    using demo_gone by (simp only: gone)
  have miss: "get_cached (cache empty_world) (clock demo_env (ticks empty_world))
      (''stock_'' @ add_suffix sname) = None" for sname
    by (rule demo_miss)
  note G = single_stock_lookup [of "''GONE''" demo_env empty_world]
  note I = single_stock_lookup [of "''INFY''" demo_env empty_world]
  from G g have g1: "snd (fst (get_single_stock demo_env empty_world ''GONE'')) = 404"
    and g2: "\<not> sr_success (fst (fst (get_single_stock demo_env empty_world ''GONE'')))"
    by blast+
  from G miss [of "''GONE''"] have "calls (snd (get_single_stock demo_env empty_world ''GONE''))
      = calls empty_world @ [add_suffix ''GONE'']"
    by blast
  then have g3: "calls (snd (get_single_stock demo_env empty_world ''GONE'')) = [''GONE.NS'']"
    by (simp only: gone demo_ticks append_Nil)
  from I q have i1: "snd (fst (get_single_stock demo_env empty_world ''INFY'')) = 200"
    and i2: "sr_success (fst (fst (get_single_stock demo_env empty_world ''INFY'')))"
    by blast+
  from I miss [of "''INFY''"] have "calls (snd (get_single_stock demo_env empty_world ''INFY''))
      = calls empty_world @ [add_suffix ''INFY'']"
    by blast
  then have i3: "calls (snd (get_single_stock demo_env empty_world ''INFY'')) = [''INFY.NS'']"
    by (simp only: infy demo_ticks append_Nil)
  from g1 g2 g3 i1 i2 i3 show ?thesis by (intro conjI)
qed

subsection \<open>The fanout\<close>




text \<open>Every order of completion comes from some schedule.\<close>

lemma as_completed_any_order:
  "mset p = mset pending \<Longrightarrow> \<exists>sched. as_completed sched pending = p"
proof (induction p arbitrary: pending)
  case Nil
  then have "as_completed [] pending = []" by simp
  then show ?case by (rule exI)
next
  case (Cons y p)
  from Cons.prems have "y \<in> set pending"
    by (metis list.set_intros(1) set_mset_mset)
  then obtain i where i: "i < length pending" "pending ! i = y"
    by (auto simp: in_set_conv_nth)
  let ?rest = "take i pending @ drop (Suc i) pending"
  have "mset pending = mset ?rest + {#y#}"
    using i by (metis id_take_nth_drop mset.simps(2) mset_append union_mset_add_mset_right
        add_mset_add_single)
  with Cons.prems have "mset p = mset ?rest"
    by simp
  from Cons.IH [OF this] obtain sched where "as_completed sched ?rest = p" ..
  with i have "as_completed (i # sched) pending = y # p"
    by (auto simp: Let_def)
  then show ?case by (rule exI)
qed

lemma run_futures_Cons:
  "run_futures e w (s # ss) =
     (fst (get_stock_data e w s) # fst (run_futures e (snd (get_stock_data e w s)) ss),
      snd (run_futures e (snd (get_stock_data e w s)) ss))"
  by (simp add: Let_def split: prod.splits)




lemma run_futures_quotes:
  "stock_entries_are_quotes (cache w) \<Longrightarrow>
     (\<forall>d \<in> set (fst (run_futures e w ss)). d = None \<or> (\<exists>q. d = Some (PQuote q))) \<and>
     stock_entries_are_quotes (cache (snd (run_futures e w ss)))"
proof (induction ss arbitrary: w)
  case Nil
  then show ?case by simp
next
  case (Cons s ss)
  obtain d w1 where step: "get_stock_data e w s = (d, w1)"
    by (cases "get_stock_data e w s")
  from get_stock_data_quotes [OF Cons.prems step]
  have d: "d = None \<or> (\<exists>q. d = Some (PQuote q))" and w1: "stock_entries_are_quotes (cache w1)"
    by simp_all
  from Cons.IH [OF w1] d show ?case
    by (simp add: run_futures_Cons step del: run_futures.simps(2))
qed

lemma collect_filter: "map Some (collect ds) = filter (\<lambda>d. d \<noteq> None) ds"
  by (induction ds rule: collect.induct) simp_all


lemma fetch_stocks_concurrent_unfold:
  "fetch_stocks_concurrent e w sched symbols =
     (collect (fst (run_futures e (w\<lparr>fanouts := fanouts w @ [symbols]\<rparr>)
                      (as_completed sched symbols))),
      snd (run_futures e (w\<lparr>fanouts := fanouts w @ [symbols]\<rparr>)
             (as_completed sched symbols)))"
  by (simp add: fetch_stocks_concurrent_def split: prod.splits)






lemma fetch_stocks_concurrent_quotes:
  assumes "stock_entries_are_quotes (cache w)"
  shows "(\<forall>v \<in> set (fst (fetch_stocks_concurrent e w sched symbols)). \<exists>q. v = PQuote q) \<and>
         stock_entries_are_quotes (cache (snd (fetch_stocks_concurrent e w sched symbols)))"
proof -
  let ?w = "w\<lparr>fanouts := fanouts w @ [symbols]\<rparr>"
  let ?ds = "fst (run_futures e ?w (as_completed sched symbols))"
  have "stock_entries_are_quotes (cache ?w)"
    using assms by simp
  from run_futures_quotes [OF this, of e "as_completed sched symbols"]
  have ds: "\<forall>d \<in> set ?ds. d = None \<or> (\<exists>q. d = Some (PQuote q))"
    and inv: "stock_entries_are_quotes (cache (snd (run_futures e ?w (as_completed sched symbols))))"
    by simp_all
  have "\<forall>v \<in> set (collect ?ds). \<exists>q. v = PQuote q"
  proof
    fix v assume "v \<in> set (collect ?ds)"
    then have "Some v \<in> set (map Some (collect ?ds))" by simp
    then have "Some v \<in> set ?ds" by (simp add: collect_filter)
    with ds show "\<exists>q. v = PQuote q" by auto
  qed
  with inv show ?thesis
    by (simp add: fetch_stocks_concurrent_unfold)
qed


lemma demo_order:
  "as_completed [2] [''INFY.NS'', ''GONE.NS'', ''ZERO.NS''] =
     [''ZERO.NS'', ''INFY.NS'', ''GONE.NS'']"
  by (simp add: Let_def)



subsection \<open>Search\<close>


lemma search_stocks_unfold:
  "search_stocks e w sched query =
     (if matching_symbols (upper query) \<noteq> []
      then (\<lparr> s_success = True, s_query = upper query,
               s_count = length (fst (fetch_stocks_concurrent e w sched
                                        (matching_symbols (upper query)))),
               s_data = fst (fetch_stocks_concurrent e w sched
                               (matching_symbols (upper query))) \<rparr>,
            snd (fetch_stocks_concurrent e w sched (matching_symbols (upper query))))
      else (\<lparr> s_success = True, s_query = upper query, s_count = 0, s_data = [] \<rparr>, w))"
  by (simp add: search_stocks_def Let_def split: prod.splits)



subsection \<open>The list routes\<close>

lemma as_quotes_all:
  "\<forall>v \<in> set vs. \<exists>q. v = PQuote q \<Longrightarrow> \<exists>qs. as_quotes vs = Inr qs \<and> map PQuote qs = vs"
proof (induction vs)
  case Nil
  then show ?case by simp
next
  case (Cons v vs)
  from Cons.prems obtain q where v: "v = PQuote q" by auto
  from Cons obtain qs where "as_quotes vs = Inr qs" "map PQuote qs = vs" by auto
  with v have "as_quotes (v # vs) = Inr (q # qs) \<and> map PQuote (q # qs) = v # vs"
    by (simp add: bind_err_def)
  then show ?case by (rule exI)
qed

lemma index_rows_all:
  "\<forall>v \<in> set vs. \<exists>q. v = PQuote q \<Longrightarrow>
     \<exists>entries w1. index_rows e m w vs = (Inr entries, w1) \<and> length entries = length vs \<and>
        cache w1 = cache w"
proof (induction vs arbitrary: w)
  case Nil
  then show ?case by simp
next
  case (Cons v vs)
  from Cons.prems obtain q where v: "v = PQuote q" by auto
  from Cons.IH [of "tick w"] Cons.prems obtain entries w1
    where "index_rows e m (tick w) vs = (Inr entries, w1)" "length entries = length vs"
      "cache w1 = cache (tick w)"
    by auto
  with v show ?case
    by (simp add: Let_def tick_def)
qed

lemma respond_result:
  "fst (respond e w key rows) =
     Inr (PResponse \<lparr> success = True, count = length rows, data = rows,
                      timestamp = clock e (ticks w) \<rparr>)"
  by (simp add: respond_def Let_def)

lemma cached_route_miss:
  "get_cached (cache w) (clock e (ticks w)) key = None \<Longrightarrow>
     cached_route key build e w sched = build e (tick w) sched"
  by (simp add: cached_route_def)

lemma fetched_quotes:
  assumes "stock_entries_are_quotes (cache w)"
  shows "\<exists>qs. as_quotes (fst (fetch_stocks_concurrent e w sched symbols)) = Inr qs \<and>
           map PQuote qs = fst (fetch_stocks_concurrent e w sched symbols)"
  using fetch_stocks_concurrent_quotes [OF assms, of e sched symbols]
  by (intro as_quotes_all) simp

lemma build_gainers_result:
  assumes "stock_entries_are_quotes (cache w)"
  shows "\<exists>qs. map PQuote qs = fst (fetch_stocks_concurrent e w sched (take 30 NIFTY_50_STOCKS)) \<and>
     fst (build_gainers e w sched) =
       Inr (PResponse \<lparr> success = True,
              count = length (take 10 (sort_reverse changePercent
                        (filter (\<lambda>s. changePercent s > 0) qs))),
              data = take 10 (sort_reverse changePercent
                        (filter (\<lambda>s. changePercent s > 0) qs)),
              timestamp = clock e (ticks (snd (fetch_stocks_concurrent e w sched
                        (take 30 NIFTY_50_STOCKS)))) \<rparr>)"
proof -
  from fetched_quotes [OF assms, of e sched "take 30 NIFTY_50_STOCKS"] obtain qs
    where qs: "as_quotes (fst (fetch_stocks_concurrent e w sched (take 30 NIFTY_50_STOCKS)))
                 = Inr qs"
      "map PQuote qs = fst (fetch_stocks_concurrent e w sched (take 30 NIFTY_50_STOCKS))"
    by blast
  then show ?thesis
    by (auto simp: build_gainers_def respond_result Let_def split: prod.splits)
qed

lemma build_losers_result:
  assumes "stock_entries_are_quotes (cache w)"
  shows "\<exists>qs. map PQuote qs = fst (fetch_stocks_concurrent e w sched (take 30 NIFTY_50_STOCKS)) \<and>
     fst (build_losers e w sched) =
       Inr (PResponse \<lparr> success = True,
              count = length (take 10 (sort_key changePercent
                        (filter (\<lambda>s. changePercent s < 0) qs))),
              data = take 10 (sort_key changePercent
                        (filter (\<lambda>s. changePercent s < 0) qs)),
              timestamp = clock e (ticks (snd (fetch_stocks_concurrent e w sched
                        (take 30 NIFTY_50_STOCKS)))) \<rparr>)"
proof -
  from fetched_quotes [OF assms, of e sched "take 30 NIFTY_50_STOCKS"] obtain qs
    where qs: "as_quotes (fst (fetch_stocks_concurrent e w sched (take 30 NIFTY_50_STOCKS)))
                 = Inr qs"
      "map PQuote qs = fst (fetch_stocks_concurrent e w sched (take 30 NIFTY_50_STOCKS))"
    by blast
  then show ?thesis
    by (auto simp: build_losers_def respond_result Let_def split: prod.splits)
qed

lemma build_stocks_result:
  assumes "stock_entries_are_quotes (cache w)"
  shows "\<exists>qs. map PQuote qs = fst (fetch_stocks_concurrent e w sched (take 20 NIFTY_50_STOCKS)) \<and>
     fst (build_stocks e w sched) =
       Inr (PResponse \<lparr> success = True,
              count = length (sort_reverse (\<lambda>x. \<bar>changePercent x\<bar>) qs),
              data = sort_reverse (\<lambda>x. \<bar>changePercent x\<bar>) qs,
              timestamp = clock e (ticks (snd (fetch_stocks_concurrent e w sched
                        (take 20 NIFTY_50_STOCKS)))) \<rparr>)"
proof -
  from fetched_quotes [OF assms, of e sched "take 20 NIFTY_50_STOCKS"] obtain qs
    where qs: "as_quotes (fst (fetch_stocks_concurrent e w sched (take 20 NIFTY_50_STOCKS)))
                 = Inr qs"
      "map PQuote qs = fst (fetch_stocks_concurrent e w sched (take 20 NIFTY_50_STOCKS))"
    by blast
  then show ?thesis
    by (auto simp: build_stocks_def respond_result Let_def split: prod.splits)
qed

lemma build_indices_result:
  assumes "stock_entries_are_quotes (cache w)"
  shows "\<exists>r. fst (build_indices e w sched) = Inr (PIndices r) \<and> success r \<and>
           count r = length (data r) \<and>
           length (data r) = length (fst (fetch_stocks_concurrent e w sched (map snd NSE_INDICES)))"
proof -
  let ?f = "fetch_stocks_concurrent e w sched (map snd NSE_INDICES)"
  have "\<forall>v \<in> set (fst ?f). \<exists>q. v = PQuote q"
    using fetch_stocks_concurrent_quotes [OF assms, of e sched "map snd NSE_INDICES"] by simp
  from index_rows_all [OF this, of e "dict_zip (map snd NSE_INDICES) (map fst NSE_INDICES)" "snd ?f"]
  obtain entries w1
    where "index_rows e (dict_zip (map snd NSE_INDICES) (map fst NSE_INDICES)) (snd ?f) (fst ?f)
             = (Inr entries, w1)" "length entries = length (fst ?f)"
    by blast
  then show ?thesis
    by (auto simp: build_indices_def Let_def split: prod.splits)
qed

lemma sorted_sort_reverse:
  "sorted_wrt (\<lambda>a b. k a \<ge> k b) (sort_reverse k xs)"
proof -
  have "sorted (map (\<lambda>x. - k x) (sort_key (\<lambda>x. - k x) xs))"
    by (rule sorted_sort_key)
  then show ?thesis
    by (simp add: sort_reverse_def sorted_map)
qed

lemma sorted_sort_forward:
  "sorted_wrt (\<lambda>a b. k a \<le> k b) (sort_key k xs)"
  using sorted_sort_key [of k xs] by (simp add: sorted_map)

text \<open>
  Claim C3. In a state the program can reach, a gainers response and a losers response
  that are built (no fresh cached response) exist whatever the fetches did, and: every
  gainer has \<open>changePercent > 0\<close> and the gainers are in descending order of it; every
  loser has \<open>changePercent < 0\<close> and the losers are in ascending order, the most
  negative first; no quote is in both lists; each list has at most 10 entries; and every
  entry is one of the quotes fetched for the first 30 symbols.
\<close>

theorem gainers_losers_partition:
  assumes inv_g: "stock_entries_are_quotes (cache w)"
      and miss_g: "get_cached (cache w) (clock e (ticks w)) ''gainers_response'' = None"
      and inv_l: "stock_entries_are_quotes (cache w')"
      and miss_l: "get_cached (cache w') (clock e' (ticks w')) ''losers_response'' = None"
  shows "\<exists>g l. fst (get_gainers e w sched) = Inr (PResponse g) \<and>
           fst (get_losers e' w' sched') = Inr (PResponse l) \<and>
           (\<forall>q \<in> set (data g). changePercent q > 0) \<and>
           sorted_wrt (\<lambda>a b. changePercent a \<ge> changePercent b) (data g) \<and>
           (\<forall>q \<in> set (data l). changePercent q < 0) \<and>
           sorted_wrt (\<lambda>a b. changePercent a \<le> changePercent b) (data l) \<and>
           set (data g) \<inter> set (data l) = {} \<and>
           length (data g) \<le> 10 \<and> length (data l) \<le> 10 \<and>
           (\<forall>q \<in> set (data g). PQuote q \<in> set (fst (fetch_stocks_concurrent e (tick w) sched
                                                    (take 30 NIFTY_50_STOCKS)))) \<and>
           (\<forall>q \<in> set (data l). PQuote q \<in> set (fst (fetch_stocks_concurrent e' (tick w') sched'
                                                    (take 30 NIFTY_50_STOCKS))))"
proof -
  have "stock_entries_are_quotes (cache (tick w))"
    using inv_g by (simp add: tick_def)
  from build_gainers_result [OF this, of e sched] obtain gs
    where gs: "map PQuote gs = fst (fetch_stocks_concurrent e (tick w) sched
                                      (take 30 NIFTY_50_STOCKS))"
      and g: "fst (build_gainers e (tick w) sched) =
        Inr (PResponse \<lparr> success = True,
              count = length (take 10 (sort_reverse changePercent
                        (filter (\<lambda>s. changePercent s > 0) gs))),
              data = take 10 (sort_reverse changePercent
                        (filter (\<lambda>s. changePercent s > 0) gs)),
              timestamp = clock e (ticks (snd (fetch_stocks_concurrent e (tick w) sched
                        (take 30 NIFTY_50_STOCKS)))) \<rparr>)"
    by blast
  have "stock_entries_are_quotes (cache (tick w'))"
    using inv_l by (simp add: tick_def)
  from build_losers_result [OF this, of e' sched'] obtain ls
    where ls: "map PQuote ls = fst (fetch_stocks_concurrent e' (tick w') sched'
                                      (take 30 NIFTY_50_STOCKS))"
      and l: "fst (build_losers e' (tick w') sched') =
        Inr (PResponse \<lparr> success = True,
              count = length (take 10 (sort_key changePercent
                        (filter (\<lambda>s. changePercent s < 0) ls))),
              data = take 10 (sort_key changePercent
                        (filter (\<lambda>s. changePercent s < 0) ls)),
              timestamp = clock e' (ticks (snd (fetch_stocks_concurrent e' (tick w') sched'
                        (take 30 NIFTY_50_STOCKS)))) \<rparr>)"
    by blast
  define gd where "gd = take 10 (sort_reverse changePercent (filter (\<lambda>s. changePercent s > 0) gs))"
  define ld where "ld = take 10 (sort_key changePercent (filter (\<lambda>s. changePercent s < 0) ls))"
  have g_set: "set gd \<subseteq> {q \<in> set gs. changePercent q > 0}"
    unfolding gd_def sort_reverse_def using set_take_subset [of 10] by fastforce
  have l_set: "set ld \<subseteq> {q \<in> set ls. changePercent q < 0}"
    unfolding ld_def using set_take_subset [of 10] by fastforce
  have g_sorted: "sorted_wrt (\<lambda>a b. changePercent a \<ge> changePercent b) gd"
    unfolding gd_def by (intro sorted_wrt_take sorted_sort_reverse)
  have l_sorted: "sorted_wrt (\<lambda>a b. changePercent a \<le> changePercent b) ld"
    unfolding ld_def by (intro sorted_wrt_take sorted_sort_forward)
  have disjoint: "set gd \<inter> set ld = {}"
    using g_set l_set by fastforce
  have lens: "length gd \<le> 10" "length ld \<le> 10"
    by (simp_all add: gd_def ld_def)
  have g_from: "\<forall>q \<in> set gd. PQuote q \<in> set (fst (fetch_stocks_concurrent e (tick w) sched
      (take 30 NIFTY_50_STOCKS)))"
    using g_set unfolding gs [symmetric] by auto
  have l_from: "\<forall>q \<in> set ld. PQuote q \<in> set (fst (fetch_stocks_concurrent e' (tick w') sched'
      (take 30 NIFTY_50_STOCKS)))"
    using l_set unfolding ls [symmetric] by auto
  have "fst (get_gainers e w sched) = Inr (PResponse \<lparr> success = True, count = length gd,
      data = gd, timestamp = clock e (ticks (snd (fetch_stocks_concurrent e (tick w) sched
                        (take 30 NIFTY_50_STOCKS)))) \<rparr>)"
    by (simp add: get_gainers_def cached_route_miss [OF miss_g] g gd_def)
  moreover have "fst (get_losers e' w' sched') = Inr (PResponse \<lparr> success = True,
      count = length ld, data = ld,
      timestamp = clock e' (ticks (snd (fetch_stocks_concurrent e' (tick w') sched'
                        (take 30 NIFTY_50_STOCKS)))) \<rparr>)"
    by (simp add: get_losers_def cached_route_miss [OF miss_l] l ld_def)
  ultimately show ?thesis
    using g_set l_set g_sorted l_sorted disjoint lens g_from l_from by auto
qed

lemma market_gainers:
  "movers (fst (get_gainers market_env empty_world [3, 1, 4, 1, 5, 9, 2, 6])) =
     [(''HINDUNILVR.NS'', 30), (''BHARTIARTL.NS'', 30), (''TATAMOTORS.NS'', 30),
      (''BAJFINANCE.NS'', 30), (''ULTRACEMCO.NS'', 30), (''KOTAKBANK.NS'', 20),
      (''SUNPHARMA.NS'', 20), (''ICICIBANK.NS'', 20), (''NESTLEIND.NS'', 20),
      (''POWERGRID.NS'', 20)]"
  by code_simp

lemma market_losers:
  "movers (fst (get_losers market_env empty_world [2, 7])) =
     [(''LT.NS'', - 50), (''TCS.NS'', - 40), (''ITC.NS'', - 40), (''M&M.NS'', - 40),
      (''INFY.NS'', - 30), (''SBIN.NS'', - 30), (''ONGC.NS'', - 30), (''NTPC.NS'', - 30),
      (''TITAN.NS'', - 20), (''WIPRO.NS'', - 20)]"
  by code_simp

lemma empty_world_quotes: "stock_entries_are_quotes (cache empty_world)"
  by (simp add: stock_entries_are_quotes_def empty_world_def)

theorem gainers_losers_partition_witness:
  "(\<exists>g l. fst (get_gainers market_env empty_world [3, 1, 4, 1, 5, 9, 2, 6]) = Inr (PResponse g) \<and>
      fst (get_losers market_env empty_world [2, 7]) = Inr (PResponse l) \<and>
      set (data g) \<inter> set (data l) = {} \<and> length (data g) \<le> 10 \<and> length (data l) \<le> 10) \<and>
   movers (fst (get_gainers market_env empty_world [3, 1, 4, 1, 5, 9, 2, 6])) =
     [(''HINDUNILVR.NS'', 30), (''BHARTIARTL.NS'', 30), (''TATAMOTORS.NS'', 30),
      (''BAJFINANCE.NS'', 30), (''ULTRACEMCO.NS'', 30), (''KOTAKBANK.NS'', 20),
      (''SUNPHARMA.NS'', 20), (''ICICIBANK.NS'', 20), (''NESTLEIND.NS'', 20),
      (''POWERGRID.NS'', 20)] \<and>
   movers (fst (get_losers market_env empty_world [2, 7])) =
     [(''LT.NS'', - 50), (''TCS.NS'', - 40), (''ITC.NS'', - 40), (''M&M.NS'', - 40),
      (''INFY.NS'', - 30), (''SBIN.NS'', - 30), (''ONGC.NS'', - 30), (''NTPC.NS'', - 30),
      (''TITAN.NS'', - 20), (''WIPRO.NS'', - 20)]"
proof -
  from gainers_losers_partition [OF empty_world_quotes demo_miss empty_world_quotes demo_miss,
      of market_env "[3, 1, 4, 1, 5, 9, 2, 6]" market_env "[2, 7]"]
  have "\<exists>g l. fst (get_gainers market_env empty_world [3, 1, 4, 1, 5, 9, 2, 6]) = Inr (PResponse g) \<and>
      fst (get_losers market_env empty_world [2, 7]) = Inr (PResponse l) \<and>
      set (data g) \<inter> set (data l) = {} \<and> length (data g) \<le> 10 \<and> length (data l) \<le> 10"
    by blast
  with market_gainers market_losers show ?thesis by (intro conjI)
qed

text \<open>
  Claim C10. In a state the program can reach, every response that the indices,
  stocks, gainers and losers routes build (no fresh cached response), and every search
  response, has \<open>success\<close> true and \<open>count\<close> equal to the length of \<open>data\<close>,
  whatever the fetches did; a response is built also when every fetch fails.
\<close>

theorem response_count_invariant:
  assumes inv: "stock_entries_are_quotes (cache w)"
  shows "(get_cached (cache w) (clock e (ticks w)) ''indices_response'' = None \<longrightarrow>
            (\<exists>r. fst (get_indices e w sched) = Inr (PIndices r) \<and>
                 success r \<and> count r = length (data r))) \<and>
         (get_cached (cache w) (clock e (ticks w)) ''stocks_response'' = None \<longrightarrow>
            (\<exists>r. fst (get_stocks e w sched) = Inr (PResponse r) \<and>
                 success r \<and> count r = length (data r))) \<and>
         (get_cached (cache w) (clock e (ticks w)) ''gainers_response'' = None \<longrightarrow>
            (\<exists>r. fst (get_gainers e w sched) = Inr (PResponse r) \<and>
                 success r \<and> count r = length (data r))) \<and>
         (get_cached (cache w) (clock e (ticks w)) ''losers_response'' = None \<longrightarrow>
            (\<exists>r. fst (get_losers e w sched) = Inr (PResponse r) \<and>
                 success r \<and> count r = length (data r))) \<and>
         s_success (fst (search_stocks e w sched query)) \<and>
         s_count (fst (search_stocks e w sched query))
           = length (s_data (fst (search_stocks e w sched query)))"
proof -
  have inv': "stock_entries_are_quotes (cache (tick w))"
    using inv by (simp add: tick_def)
  have indices: "\<exists>r. fst (get_indices e w sched) = Inr (PIndices r) \<and>
      success r \<and> count r = length (data r)"
    if "get_cached (cache w) (clock e (ticks w)) ''indices_response'' = None"
    using build_indices_result [OF inv', of e sched]
    by (auto simp: get_indices_def cached_route_miss [OF that])
  have stocks: "\<exists>r. fst (get_stocks e w sched) = Inr (PResponse r) \<and>
      success r \<and> count r = length (data r)"
    if "get_cached (cache w) (clock e (ticks w)) ''stocks_response'' = None"
    using build_stocks_result [OF inv', of e sched]
    by (auto simp: get_stocks_def cached_route_miss [OF that])
  have gainers: "\<exists>r. fst (get_gainers e w sched) = Inr (PResponse r) \<and>
      success r \<and> count r = length (data r)"
    if "get_cached (cache w) (clock e (ticks w)) ''gainers_response'' = None"
    using build_gainers_result [OF inv', of e sched]
    by (auto simp: get_gainers_def cached_route_miss [OF that])
  have losers: "\<exists>r. fst (get_losers e w sched) = Inr (PResponse r) \<and>
      success r \<and> count r = length (data r)"
    if "get_cached (cache w) (clock e (ticks w)) ''losers_response'' = None"
    using build_losers_result [OF inv', of e sched]
    by (auto simp: get_losers_def cached_route_miss [OF that])
  have search: "s_success (fst (search_stocks e w sched query))"
    "s_count (fst (search_stocks e w sched query))
       = length (s_data (fst (search_stocks e w sched query)))"
    by (simp_all add: search_stocks_unfold)
  from indices stocks gainers losers search show ?thesis
    by blast
qed

lemma dead_gainers:
  "fst (get_gainers dead_env empty_world []) =
     Inr (PResponse \<lparr> success = True, count = 0, data = [], timestamp = 1610 \<rparr>)"
  by code_simp

theorem response_count_invariant_witness:
  "(\<exists>r. fst (get_indices market_env empty_world [5, 3]) = Inr (PIndices r) \<and>
        success r \<and> count r = length (data r)) \<and>
   (\<exists>r. fst (get_stocks market_env empty_world [5, 3]) = Inr (PResponse r) \<and>
        success r \<and> count r = length (data r)) \<and>
   (\<exists>r. fst (get_gainers dead_env empty_world []) = Inr (PResponse r) \<and>
        success r \<and> count r = length (data r) \<and> data r = [])"
proof -
  note M = response_count_invariant [OF empty_world_quotes, of market_env "[5, 3]"]
  note D = response_count_invariant [OF empty_world_quotes, of dead_env "[]"]
  from M demo_miss have "\<exists>r. fst (get_indices market_env empty_world [5, 3]) = Inr (PIndices r) \<and>
        success r \<and> count r = length (data r)"
    by blast
  moreover from M demo_miss
  have "\<exists>r. fst (get_stocks market_env empty_world [5, 3]) = Inr (PResponse r) \<and>
        success r \<and> count r = length (data r)"
    by blast
  moreover from D demo_miss
  have "\<exists>r. fst (get_gainers dead_env empty_world []) = Inr (PResponse r) \<and>
        success r \<and> count r = length (data r)"
    by blast
  then have "\<exists>r. fst (get_gainers dead_env empty_world []) = Inr (PResponse r) \<and>
        success r \<and> count r = length (data r) \<and> data r = []"
    using dead_gainers by auto
  ultimately show ?thesis by (intro conjI)
qed

subsection \<open>Every request keeps the stock entries of the cache quotes\<close>

text \<open>
  The hypothesis \<open>stock_entries_are_quotes\<close> of the theorems on the list routes holds at
  start-up (the cache is empty) and after every request, whatever the provider does.
\<close>

lemma stock_entries_other_key:
  assumes "\<not> prefix ''stock_'' k" and "stock_entries_are_quotes c"
  shows "stock_entries_are_quotes (c(k \<mapsto> x))"
  unfolding stock_entries_are_quotes_def
proof (intro allI impI)
  fix s v t
  assume stored: "(c(k \<mapsto> x)) (''stock_'' @ s) = Some (v, t)"
  have "k \<noteq> ''stock_'' @ s"
    using assms(1) by (metis prefixI)
  with stored have "c (''stock_'' @ s) = Some (v, t)"
    by (simp del: append.simps)
  with assms(2) show "\<exists>q. v = PQuote q"
    by (rule stock_entries_are_quotesD)
qed

lemma respond_keeps:
  assumes "\<not> prefix ''stock_'' key" and "stock_entries_are_quotes (cache w)"
  shows "stock_entries_are_quotes (cache (snd (respond e w key rows)))"
  using stock_entries_other_key [OF assms]
  by (simp add: respond_def Let_def tick_def set_cached_def)

lemma index_rows_cache: "cache (snd (index_rows e m w vs)) = cache w"
proof (induction vs arbitrary: w)
  case Nil
  then show ?case by simp
next
  case (Cons v vs)
  show ?case
  proof (cases v)
    case (PQuote q)
    obtain r w1 where rest: "index_rows e m (tick w) vs = (r, w1)"
      by (cases "index_rows e m (tick w) vs")
    with Cons [of "tick w"] have "cache w1 = cache w"
      by (simp add: tick_def)
    with rest PQuote show ?thesis
      by (cases r) (simp_all add: Let_def)
  next
    case (PResponse r)
    then show ?thesis by simp
  next
    case (PIndices r)
    then show ?thesis by simp
  qed
qed

lemma build_indices_keeps:
  assumes "stock_entries_are_quotes (cache w)"
  shows "stock_entries_are_quotes (cache (snd (build_indices e w sched)))"
proof -
  let ?f = "fetch_stocks_concurrent e w sched (map snd NSE_INDICES)"
  let ?r = "index_rows e (dict_zip (map snd NSE_INDICES) (map fst NSE_INDICES)) (snd ?f) (fst ?f)"
  have f: "stock_entries_are_quotes (cache (snd ?f))"
    using fetch_stocks_concurrent_quotes [OF assms] by simp
  then have r: "stock_entries_are_quotes (cache (snd ?r))"
    by (simp add: index_rows_cache)
  have key: "\<not> prefix ''stock_'' ''indices_response''"
    by simp
  obtain vs w1 where f_eq: "?f = (vs, w1)"
    by (cases ?f)
  obtain res w2 where r_eq: "index_rows e (dict_zip (map snd NSE_INDICES) (map fst NSE_INDICES))
      w1 vs = (res, w2)"
    by (cases "index_rows e (dict_zip (map snd NSE_INDICES) (map fst NSE_INDICES)) w1 vs")
  from r f_eq r_eq have w2: "stock_entries_are_quotes (cache w2)"
    by simp
  show ?thesis
  proof (cases res)
    case (Inl err)
    then have "snd (build_indices e w sched) = w2"
      by (simp add: build_indices_def Let_def f_eq r_eq)
    with w2 show ?thesis by simp
  next
    case (Inr rows)
    then have "\<exists>x. cache (snd (build_indices e w sched)) = (cache w2)(''indices_response'' \<mapsto> x)"
      by (simp add: build_indices_def Let_def f_eq r_eq tick_def set_cached_def) blast
    then show ?thesis
      using stock_entries_other_key [OF key w2] by auto
  qed
qed

lemma build_stocks_keeps:
  assumes "stock_entries_are_quotes (cache w)"
  shows "stock_entries_are_quotes (cache (snd (build_stocks e w sched)))"
  using fetch_stocks_concurrent_quotes [OF assms, of e sched "take 20 NIFTY_50_STOCKS"]
  by (auto simp: build_stocks_def Let_def respond_keeps split: prod.splits sum.splits)

lemma build_gainers_keeps:
  assumes "stock_entries_are_quotes (cache w)"
  shows "stock_entries_are_quotes (cache (snd (build_gainers e w sched)))"
  using fetch_stocks_concurrent_quotes [OF assms, of e sched "take 30 NIFTY_50_STOCKS"]
  by (auto simp: build_gainers_def Let_def respond_keeps split: prod.splits sum.splits)

lemma build_losers_keeps:
  assumes "stock_entries_are_quotes (cache w)"
  shows "stock_entries_are_quotes (cache (snd (build_losers e w sched)))"
  using fetch_stocks_concurrent_quotes [OF assms, of e sched "take 30 NIFTY_50_STOCKS"]
  by (auto simp: build_losers_def Let_def respond_keeps split: prod.splits sum.splits)

lemma cached_route_keeps:
  assumes build: "\<And>w. stock_entries_are_quotes (cache w) \<Longrightarrow>
                     stock_entries_are_quotes (cache (snd (build e w sched)))"
      and inv: "stock_entries_are_quotes (cache w)"
  shows "stock_entries_are_quotes (cache (snd (cached_route key build e w sched)))"
proof -
  have "stock_entries_are_quotes (cache (tick w))"
    using inv by (simp add: tick_def)
  with build [of "tick w"] show ?thesis
    by (simp add: cached_route_def split: option.splits)
qed

text \<open>Every request keeps the cache in the shape it has at start-up.\<close>

lemma requests_keep_stock_entries:
  assumes "stock_entries_are_quotes (cache w)"
  shows "stock_entries_are_quotes (cache (snd (get_indices e w sched)))"
    and "stock_entries_are_quotes (cache (snd (get_stocks e w sched)))"
    and "stock_entries_are_quotes (cache (snd (get_gainers e w sched)))"
    and "stock_entries_are_quotes (cache (snd (get_losers e w sched)))"
    and "stock_entries_are_quotes (cache (snd (get_single_stock e w s)))"
    and "stock_entries_are_quotes (cache (snd (search_stocks e w sched query)))"
proof -
  show "stock_entries_are_quotes (cache (snd (get_indices e w sched)))"
    unfolding get_indices_def using build_indices_keeps assms by (rule cached_route_keeps)
  show "stock_entries_are_quotes (cache (snd (get_stocks e w sched)))"
    unfolding get_stocks_def using build_stocks_keeps assms by (rule cached_route_keeps)
  show "stock_entries_are_quotes (cache (snd (get_gainers e w sched)))"
    unfolding get_gainers_def using build_gainers_keeps assms by (rule cached_route_keeps)
  show "stock_entries_are_quotes (cache (snd (get_losers e w sched)))"
    unfolding get_losers_def using build_losers_keeps assms by (rule cached_route_keeps)
  obtain d w1 where run: "get_stock_data e w (add_suffix s) = (d, w1)"
    by (cases "get_stock_data e w (add_suffix s)")
  from get_stock_data_quotes [OF assms run] have "stock_entries_are_quotes (cache w1)"
    by simp
  then show "stock_entries_are_quotes (cache (snd (get_single_stock e w s)))"
    by (cases d) (simp_all add: get_single_stock_unfold run tick_def)
  show "stock_entries_are_quotes (cache (snd (search_stocks e w sched query)))"
    using fetch_stocks_concurrent_quotes [OF assms] assms
    by (simp add: search_stocks_unfold)
qed

end
